theory Spec2Isabelle
  imports Main "HOL-Library.AList"
begin

section \<open>Python values and exceptions\<close>

text \<open>
  The exceptions that the modelled functions raise. \<open>OpError\<close> stands for whatever an
  application-supplied callable raises; \<open>Exception\<close> carries the message of a plain
  \<^verbatim>\<open>raise Exception(...)\<close>.
\<close>

datatype error =
    CancelledError
  | AssertionError
  | AttributeError
  | TypeError
  | KeyError
  | InvalidStateError
  | PygameError
  | Exception string
  | OpError string

text \<open>
  The runtime is generic over the shape of its State, so values are Python objects:
  \<open>VData cls fields\<close> is an instance of the dataclass \<open>cls\<close> with its fields in
  declaration order; \<open>VDict\<close> is a (frozen) dictionary in insertion order.
\<close>

datatype pyval =
    VNone
  | VBool bool
  | VInt int
  | VStr string
  | VTuple "pyval list"
  | VDict "(pyval \<times> pyval) list"
  | VData string "(string \<times> pyval) list"

text \<open>
  Python truth value testing (\<^verbatim>\<open>if x\<close>, \<^verbatim>\<open>assert x\<close>). An instance of a dataclass
  that defines neither \<^verbatim>\<open>__bool__\<close> nor \<^verbatim>\<open>__len__\<close> (as \<^verbatim>\<open>Application\<close> and
  \<^verbatim>\<open>Element\<close>) is true.
\<close>

fun truthy :: "pyval \<Rightarrow> bool" where
  "truthy VNone = False"
| "truthy (VBool b) = b"
| "truthy (VInt i) = (i \<noteq> 0)"
| "truthy (VStr s) = (s \<noteq> [])"
| "truthy (VTuple xs) = (xs \<noteq> [])"
| "truthy (VDict kvs) = (kvs \<noteq> [])"
| "truthy (VData cls fields) = True"

fun is_dataclass :: "pyval \<Rightarrow> bool" where
  "is_dataclass (VData cls fields) = True"
| "is_dataclass _ = False"

text \<open>
  \<^verbatim>\<open>getattr(obj, key)\<close>: the name must be a string; a dataclass instance has its fields
  as attributes. The builtin values of this model carry no attributes.
\<close>

fun getattr :: "pyval \<Rightarrow> pyval \<Rightarrow> error + pyval" where
  "getattr (VData cls fields) (VStr key) =
     (case map_of fields key of None \<Rightarrow> Inl AttributeError | Some v \<Rightarrow> Inr v)"
| "getattr _ (VStr key) = Inl AttributeError"
| "getattr _ _ = Inl TypeError"

text \<open>
  \<^verbatim>\<open>dataclasses.replace(obj, **{key: value})\<close>: a keyword that is not a string is
  rejected by the call itself, a keyword that names no field by the constructor (both
  \<^verbatim>\<open>TypeError\<close>); otherwise a new instance of the same class with that one field changed.
\<close>

fun dataclass_replace :: "pyval \<Rightarrow> pyval \<Rightarrow> pyval \<Rightarrow> error + pyval" where
  "dataclass_replace (VData cls fields) (VStr key) v =
     (if key \<in> fst ` set fields then Inr (VData cls (AList.update key v fields))
      else Inl TypeError)"
| "dataclass_replace _ _ _ = Inl TypeError"


section \<open>framework/actor.py\<close>

text \<open>
  \<^verbatim>\<open>Operation\<close>: a callable with captured positional and keyword arguments. The callable
  receives its target first and either returns a value or raises.
\<close>

datatype Operation = Operation
  (op: "pyval \<Rightarrow> pyval list \<Rightarrow> (string \<times> pyval) list \<Rightarrow> error + pyval")
  (args: "pyval list")
  (kwargs: "(string \<times> pyval) list")

text \<open>The call \<^verbatim>\<open>operation.op(target, *operation.args, **operation.kwargs)\<close>.\<close>

definition call_operation :: "Operation \<Rightarrow> pyval \<Rightarrow> error + pyval" where
  "call_operation operation target = op operation target (args operation) (kwargs operation)"

definition state_getter :: "pyval \<Rightarrow> pyval \<Rightarrow> error + pyval" where
  "state_getter state key = getattr state key"

definition state_setter :: "pyval \<Rightarrow> pyval \<Rightarrow> pyval \<Rightarrow> error + pyval" where
  "state_setter state key v =
     (if \<not> is_dataclass state then Inl AssertionError
      else dataclass_replace state key v)"

datatype SetRequest = SetRequest
  (set_operation: Operation)
  (set_field: pyval)

text \<open>
  \<^verbatim>\<open>SetRequest.__call__\<close>. Python evaluates the arguments of \<^verbatim>\<open>_state_setter\<close> left to
  right: the getter (or the whole state when the field is falsy), then the operation,
  and only then the setter.
\<close>

definition SetRequest_call :: "SetRequest \<Rightarrow> pyval \<Rightarrow> error + pyval" where
  "SetRequest_call request state =
     (case (if truthy (set_field request) then state_getter state (set_field request)
            else Inr state) of
        Inl e \<Rightarrow> Inl e
      | Inr target \<Rightarrow>
          (case call_operation (set_operation request) target of
             Inl e \<Rightarrow> Inl e
           | Inr v \<Rightarrow> state_setter state (set_field request) v))"

text \<open>
  An \<^verbatim>\<open>asyncio.Future\<close> is pending, holds a result, holds an exception, or is
  cancelled; \<^verbatim>\<open>set_result\<close> is allowed on a pending future only.
\<close>

datatype future = Pending | Resolved pyval | Failed error | Cancelled

fun set_result :: "future \<Rightarrow> pyval \<Rightarrow> error + future" where
  "set_result Pending v = Inr (Resolved v)"
| "set_result _ v = Inl InvalidStateError"

datatype ExecuteRequest = ExecuteRequest
  (operation: Operation)
  (field: pyval)
  (reply_to: "future option")

text \<open>
  What one run of \<^verbatim>\<open>ExecuteRequest.__call__\<close> leaves behind: the exception it raised
  (if any), the outcome of the task it created for the operation (if it got that far),
  and the reply future afterwards.
\<close>

record execution =
  raised :: "error option"
  task :: "(error + pyval) option"
  reply :: "future option"

definition ExecuteRequest_call :: "ExecuteRequest \<Rightarrow> pyval \<Rightarrow> execution" where
  "ExecuteRequest_call request state =
     (case (if truthy (field request) then state_getter state (field request)
            else Inr state) of
        Inl e \<Rightarrow> \<lparr>raised = Some e, task = None, reply = reply_to request\<rparr>
      | Inr target \<Rightarrow>
          (let result = call_operation (operation request) target in
           case reply_to request of
             None \<Rightarrow> \<lparr>raised = None, task = Some result, reply = None\<rparr>
           | Some fut \<Rightarrow>
               (case result of
                  Inl e \<Rightarrow> \<lparr>raised = Some e, task = Some result, reply = Some fut\<rparr>
                | Inr v \<Rightarrow>
                    (case set_result fut v of
                       Inl e \<Rightarrow> \<lparr>raised = Some e, task = Some result, reply = Some fut\<rparr>
                     | Inr fut' \<Rightarrow>
                         \<lparr>raised = None, task = Some result, reply = Some fut'\<rparr>))))"

datatype request = MutateRequest SetRequest | InvokeRequest ExecuteRequest

text \<open>
  \<^verbatim>\<open>consume\<close>, given the request that \<^verbatim>\<open>await queue.get()\<close> delivered. It returns the
  State for the next iteration together with the detached tasks it created, each the
  coroutine \<^verbatim>\<open>request(state)\<close> of an \<^verbatim>\<open>ExecuteRequest\<close>.
\<close>

fun consume :: "pyval \<Rightarrow> request \<Rightarrow> error + (pyval \<times> (ExecuteRequest \<times> pyval) list)" where
  "consume state (MutateRequest request) =
     (case SetRequest_call request state of
        Inl e \<Rightarrow> Inl e
      | Inr result \<Rightarrow> if truthy result then Inr (result, []) else Inl AssertionError)"
| "consume state (InvokeRequest request) = Inr (state, [(request, state)])"

text \<open>
  \<^verbatim>\<open>coroutine_reduce\<close>: \<^verbatim>\<open>while True: result = await coro_func(result, *args)\<close>. The list
  is the stream of requests that the successive \<^verbatim>\<open>queue.get()\<close> calls deliver before the
  task is cancelled; once it is exhausted the pending \<^verbatim>\<open>get\<close> is cancelled.
  \<^verbatim>\<open>CancelledError\<close> is the only exception caught, and ends the loop with the last result.
\<close>

fun coroutine_reduce :: "('s \<Rightarrow> 'r \<Rightarrow> error + 's) \<Rightarrow> 's \<Rightarrow> 'r list \<Rightarrow> error + 's" where
  "coroutine_reduce coro_func result [] = Inr result"
| "coroutine_reduce coro_func result (r # rs) =
     (case coro_func result r of
        Inl e \<Rightarrow> (if e = CancelledError then Inr result else Inl e)
      | Inr result' \<Rightarrow> coroutine_reduce coro_func result' rs)"

text \<open>
  The task that \<^verbatim>\<open>run\<close> creates: \<^verbatim>\<open>coroutine_reduce(consume, data, mailbox)\<close>. The
  loop carries the State; the detached tasks accumulate in the event loop.
\<close>

definition consume_step ::
  "pyval \<times> (ExecuteRequest \<times> pyval) list \<Rightarrow> request
     \<Rightarrow> error + (pyval \<times> (ExecuteRequest \<times> pyval) list)" where
  "consume_step loop request =
     (case consume (fst loop) request of
        Inl e \<Rightarrow> Inl e
      | Inr (state, created) \<Rightarrow> Inr (state, snd loop @ created))"

definition run :: "pyval \<Rightarrow> request list \<Rightarrow> error + (pyval \<times> (ExecuteRequest \<times> pyval) list)" where
  "run data mailbox = coroutine_reduce consume_step (data, []) mailbox"


section \<open>Immutable dictionaries\<close>

text \<open>
  The \<^verbatim>\<open>frozendict\<close> package: a dictionary in insertion order whose \<^verbatim>\<open>set\<close> and
  \<^verbatim>\<open>delete\<close> return a new dictionary. \<^verbatim>\<open>set\<close> keeps the position of a key that is
  present and appends a new one; \<^verbatim>\<open>delete\<close> of a missing key raises \<^verbatim>\<open>KeyError\<close>.
\<close>

definition fd_get :: "('k \<times> 'v) list \<Rightarrow> 'k \<Rightarrow> 'v \<Rightarrow> 'v" where
  "fd_get d k fallback = (case map_of d k of None \<Rightarrow> fallback | Some v \<Rightarrow> v)"

definition fd_set :: "('k \<times> 'v) list \<Rightarrow> 'k \<Rightarrow> 'v \<Rightarrow> ('k \<times> 'v) list" where
  "fd_set d k v = AList.update k v d"

definition fd_delete :: "('k \<times> 'v) list \<Rightarrow> 'k \<Rightarrow> error + ('k \<times> 'v) list" where
  "fd_delete d k = (if k \<in> fst ` set d then Inr (AList.delete k d) else Inl KeyError)"


section \<open>framework/game.py\<close>

type_synonym uuid = nat

text \<open>\<^verbatim>\<open>pygame.Rect\<close> as left, top, width, height.\<close>

datatype Rect = Rect int int int int

datatype Element = Element
  (position: "Rect option")
  (elem_id: uuid)

datatype 'f Listener = Listener
  (listener_event_type: int)
  (listener_op: 'f)

text \<open>The keys of a target map: the literal \<^verbatim>\<open>"*"\<close> or an element's id.\<close>

datatype target_key = Star | ElementId uuid

type_synonym 'f registry = "(int \<times> (target_key \<times> 'f Listener list) list) list"

text \<open>
  The fields of \<^verbatim>\<open>Application\<close> that the event registry and the dispatcher read; the
  screen, the clock and the queues belong to the presentation backend.
\<close>

datatype ('k, 'f) Application = Application
  (application_events: "('k \<times> int) list")
  (application_listeners: "'f registry")
  (application_elements: "(uuid \<times> Element) list")

text \<open>
  \<^verbatim>\<open>pygame.event.custom_type()\<close>: the backend hands out the next unused event type and
  advances, and raises once the range below \<open>limit\<close> is used up. The state of the
  allocator is the next unused type.
\<close>

definition custom_type :: "int \<Rightarrow> int \<Rightarrow> error + (int \<times> int)" where
  "custom_type limit next_type =
     (if next_type < limit then Inr (next_type, next_type + 1) else Inl PygameError)"

definition event_register ::
  "int \<Rightarrow> int \<Rightarrow> ('k \<times> int) list \<Rightarrow> 'k \<Rightarrow> error + (('k \<times> int) list \<times> int)" where
  "event_register limit next_type events event =
     (case custom_type limit next_type of
        Inl e \<Rightarrow> Inl e
      | Inr (tag, next_type') \<Rightarrow> Inr (fd_set events event tag, next_type'))"

text \<open>
  \<^verbatim>\<open>_delete_listeners\<close>, the step of the \<^verbatim>\<open>reduce\<close> in \<^verbatim>\<open>listeners_remove\<close>; the only
  exception in its \<^verbatim>\<open>try\<close> block is the \<^verbatim>\<open>KeyError\<close> of \<^verbatim>\<open>delete\<close>.
\<close>

definition delete_listeners ::
  "Element \<Rightarrow> 'f registry \<Rightarrow> int \<times> (target_key \<times> 'f Listener list) list \<Rightarrow> 'f registry" where
  "delete_listeners element current incoming =
     (case incoming of (event, listeners) \<Rightarrow>
        (case fd_delete listeners (ElementId (elem_id element)) of
           Inl e \<Rightarrow> current
         | Inr remaining \<Rightarrow> fd_set current event remaining))"

definition listeners_remove :: "'f registry \<Rightarrow> Element \<Rightarrow> 'f registry" where
  "listeners_remove listeners element = foldl (delete_listeners element) listeners listeners"

text \<open>
  The \<^verbatim>\<open>target\<close> argument of \<^verbatim>\<open>listener_add\<close>: an \<^verbatim>\<open>Element\<close> instance, \<^verbatim>\<open>None\<close>, or
  any other object.
\<close>

datatype listener_target = AnElement Element | NoTarget | Unsupported pyval

definition listener_add ::
  "'f registry \<Rightarrow> listener_target \<Rightarrow> int \<Rightarrow> 'f \<Rightarrow> error + 'f registry" where
  "listener_add listeners target event_type listener =
     (case (case target of
              AnElement element \<Rightarrow> Inr (ElementId (elem_id element))
            | NoTarget \<Rightarrow> Inr Star
            | Unsupported v \<Rightarrow> Inl (Exception ''Not supported'')) of
        Inl e \<Rightarrow> Inl e
      | Inr key \<Rightarrow>
          Inr (fd_set listeners event_type
                 (fd_set (fd_get listeners event_type []) key
                    (fd_get (fd_get listeners event_type []) key []
                       @ [Listener event_type listener]))))"


section \<open>framework/event.py\<close>

text \<open>A backend event: its type and, for pointer events, the pointer position.\<close>

datatype Event = Event
  (etype: int)
  (pos: "int \<times> int")

text \<open>
  \<^verbatim>\<open>pygame.Rect.collidepoint\<close>: a point on the right or bottom edge is outside.
\<close>

fun collidepoint :: "Rect \<Rightarrow> int \<Rightarrow> int \<Rightarrow> bool" where
  "collidepoint (Rect l t w h) x y = (l \<le> x \<and> x < l + w \<and> t \<le> y \<and> y < t + h)"

definition check_is_collide :: "Element \<Rightarrow> Event \<Rightarrow> error + bool" where
  "check_is_collide element event =
     (case position element of
        None \<Rightarrow> Inl AssertionError
      | Some rect \<Rightarrow> (case pos event of (mouse_x, mouse_y) \<Rightarrow> Inr (collidepoint rect mouse_x mouse_y)))"

text \<open>
  A listener task \<^verbatim>\<open>listener.op(event, target, mailbox, logger)\<close> is recorded as the
  callback with the snapshot it receives: the application or one of its elements.
\<close>

datatype snapshot = WholeApplication | ElementSnapshot Element

text \<open>Statements in sequence: the tasks created so far, until the first exception.\<close>

fun in_sequence :: "(error + 'a list) list \<Rightarrow> error + 'a list" where
  "in_sequence [] = Inr []"
| "in_sequence (Inl e # rest) = Inl e"
| "in_sequence (Inr xs # rest) =
     (case in_sequence rest of Inl e \<Rightarrow> Inl e | Inr ys \<Rightarrow> Inr (xs @ ys))"

text \<open>\<^verbatim>\<open>application.elements[key]\<close>.\<close>

definition elements_at :: "(uuid \<times> Element) list \<Rightarrow> uuid \<Rightarrow> error + Element" where
  "elements_at elements key =
     (case map_of elements key of None \<Rightarrow> Inl KeyError | Some element \<Rightarrow> Inr element)"

definition dispatch_to_target ::
  "('k, 'f) Application \<Rightarrow> Event \<Rightarrow> uuid option \<Rightarrow> error + ('f \<times> snapshot) list" where
  "dispatch_to_target application event target =
     (case target of
        Some t \<Rightarrow>
          in_sequence
            (map (\<lambda>listener.
                    case elements_at (application_elements application) t of
                      Inl e \<Rightarrow> Inl e
                    | Inr element \<Rightarrow> Inr [(listener_op listener, ElementSnapshot element)])
               (fd_get (fd_get (application_listeners application) (etype event) []) (ElementId t) []))
      | None \<Rightarrow>
          in_sequence
            (map (\<lambda>(elem, listeners).
                    in_sequence
                      (map (\<lambda>listener.
                              case elem of
                                Star \<Rightarrow> Inr [(listener_op listener, WholeApplication)]
                              | ElementId u \<Rightarrow>
                                  (case elements_at (application_elements application) u of
                                     Inl e \<Rightarrow> Inl e
                                   | Inr element \<Rightarrow>
                                       Inr [(listener_op listener, ElementSnapshot element)]))
                         listeners))
               (fd_get (application_listeners application) (etype event) [])))"

text \<open>
  \<^verbatim>\<open>dispatch_mouse\<close>: the body of the task group decides which elements are hit (and
  may raise before any task has run); the group then runs the wildcard dispatch and one
  dispatch for each hit element, in the order of creation.
\<close>

definition dispatch_mouse ::
  "('k, 'f) Application \<Rightarrow> Event \<Rightarrow> error + ('f \<times> snapshot) list" where
  "dispatch_mouse application event =
     (let listeners = fd_get (application_listeners application) (etype event) [] in
      case in_sequence
             (map (\<lambda>element_id.
                     case element_id of
                       Star \<Rightarrow> Inr []
                     | ElementId u \<Rightarrow>
                         (case elements_at (application_elements application) u of
                            Inl e \<Rightarrow> Inl e
                          | Inr element \<Rightarrow>
                              (case check_is_collide element event of
                                 Inl e \<Rightarrow> Inl e
                               | Inr hit \<Rightarrow> Inr (if hit then [u] else []))))
                (map fst listeners)) of
        Inl e \<Rightarrow> Inl e
      | Inr hits \<Rightarrow>
          in_sequence
            (dispatch_to_target application event None
               # map (\<lambda>u. dispatch_to_target application event (Some u)) hits))"


section \<open>Observations and reference definitions\<close>

text \<open>
  The listeners registered for an event type and a target key, read the way the
  dispatcher reads them: \<^verbatim>\<open>listeners.get(event_type, frozendict()).get(key, ())\<close>.
\<close>

definition listeners_for :: "'f registry \<Rightarrow> int \<Rightarrow> target_key \<Rightarrow> 'f Listener list" where
  "listeners_for listeners event_type key = fd_get (fd_get listeners event_type []) key []"

text \<open>
  The MutateRequests of a request stream, in the order they were enqueued.
\<close>

fun mutate_requests :: "request list \<Rightarrow> SetRequest list" where
  "mutate_requests [] = []"
| "mutate_requests (MutateRequest r # rs) = r # mutate_requests rs"
| "mutate_requests (InvokeRequest r # rs) = mutate_requests rs"

text \<open>
  The specification's reference for one MutateRequest, written from its words and not
  from \<^verbatim>\<open>SetRequest.__call__\<close>: the operation is invoked against the target field of the
  State when a field is given, else against the whole State; the new State is the old
  one with that field replaced by the result, or the result itself when no field is
  given. The produced value must not be null. The reference yields no State where the
  specification defines none: the operation raised, it produced null, or the request
  names a field that the State does not have.
\<close>

fun spec_mutate :: "SetRequest \<Rightarrow> pyval \<Rightarrow> pyval option" where
  "spec_mutate (SetRequest oper VNone) state =
     (case op oper state (args oper) (kwargs oper) of
        Inl e \<Rightarrow> None
      | Inr v \<Rightarrow> if v = VNone then None else Some v)"
| "spec_mutate (SetRequest oper (VStr name)) (VData cls attrs) =
     (case map_of attrs name of
        None \<Rightarrow> None
      | Some current \<Rightarrow>
          (case op oper current (args oper) (kwargs oper) of
             Inl e \<Rightarrow> None
           | Inr v \<Rightarrow>
               if v = VNone then None
               else Some (VData cls (AList.update name v attrs))))"
| "spec_mutate _ _ = None"

text \<open>
  The specification's reference for the mailbox: the mutate operations applied one after
  the other, in enqueue order, starting from the initial State.
\<close>

fun spec_apply_sequentially :: "pyval \<Rightarrow> SetRequest list \<Rightarrow> pyval option" where
  "spec_apply_sequentially state [] = Some state"
| "spec_apply_sequentially state (r # rs) =
     (case spec_mutate r state of
        None \<Rightarrow> None
      | Some state' \<Rightarrow> spec_apply_sequentially state' rs)"

text \<open>A MutateRequest that names its target field.\<close>

fun names_field :: "SetRequest \<Rightarrow> bool" where
  "names_field (SetRequest oper (VStr name)) = (name \<noteq> [])"
| "names_field _ = False"

text \<open>The State that a run of the mailbox actor ends with.\<close>

definition final_state :: "error + (pyval \<times> (ExecuteRequest \<times> pyval) list) \<Rightarrow> error + pyval" where
  "final_state outcome = (case outcome of Inl e \<Rightarrow> Inl e | Inr (state, created) \<Rightarrow> Inr state)"


section \<open>Sample inputs\<close>

text \<open>
  A State with two fields, three callables (one returns a fixed value whatever it is
  given, one raises, one adds its argument to the number it is given), and an
  application with a wildcard listener and three elements that listen for the
  pointer-button event type 1025.
\<close>

definition sample_state :: pyval where
  "sample_state =
     VData ''Application'' [(''start'', VInt 7), (''data'', VDict [(VStr ''k'', VInt 1)])]"

definition op_return ::
  "pyval \<Rightarrow> pyval \<Rightarrow> pyval list \<Rightarrow> (string \<times> pyval) list \<Rightarrow> error + pyval" where
  "op_return v target as kws = Inr v"

definition op_raise ::
  "error \<Rightarrow> pyval \<Rightarrow> pyval list \<Rightarrow> (string \<times> pyval) list \<Rightarrow> error + pyval" where
  "op_raise e target as kws = Inl e"

fun op_add :: "pyval \<Rightarrow> pyval list \<Rightarrow> (string \<times> pyval) list \<Rightarrow> error + pyval" where
  "op_add (VInt i) [VInt n] kws = Inr (VInt (i + n))"
| "op_add target as kws = Inl TypeError"

definition sample_application :: "(string, string) Application" where
  "sample_application = Application []
     [(1025, [(Star, [Listener 1025 ''on_any'']),
              (ElementId 1, [Listener 1025 ''on_first'']),
              (ElementId 2, [Listener 1025 ''on_second'']),
              (ElementId 3, [Listener 1025 ''on_third''])]),
      (32867, [(ElementId 2, [Listener 32867 ''fade''])])]
     [(1, Element (Some (Rect 0 0 10 10)) 1),
      (2, Element (Some (Rect 20 20 10 10)) 2),
      (3, Element (Some (Rect 40 40 10 10)) 3)]"

text \<open>
  Two request streams. In the first every MutateRequest names its field. The second
  starts with a MutateRequest without a field, as \<^verbatim>\<open>set_(mailbox)(op)\<close> enqueues it,
  whose operation returns the State it was given; a request for the field
  \<^verbatim>\<open>start\<close> follows.
\<close>

definition sample_mailbox :: "request list" where
  "sample_mailbox =
     [MutateRequest (SetRequest (Operation op_add [VInt 1] []) (VStr ''start'')),
      InvokeRequest (ExecuteRequest (Operation (op_return VNone) [] []) VNone None),
      MutateRequest (SetRequest (Operation (op_return (VDict [])) [] []) (VStr ''data''))]"

definition fieldless_mailbox :: "request list" where
  "fieldless_mailbox =
     [MutateRequest (SetRequest (Operation (op_return sample_state) [] []) VNone),
      MutateRequest (SetRequest (Operation op_add [VInt 1] []) (VStr ''start''))]"


section \<open>The mailbox actor\<close>

text \<open>
  Whatever \<^verbatim>\<open>SetRequest.__call__\<close> returns comes out of \<^verbatim>\<open>dataclasses.replace\<close>, so it
  is a dataclass instance and passes the assertion in \<^verbatim>\<open>consume\<close>.
\<close>

lemma SetRequest_call_truthy: "SetRequest_call r s = Inr s' \<Longrightarrow> truthy s'"
  unfolding SetRequest_call_def state_setter_def
  by (cases s; cases "set_field r")
     (auto split: sum.splits if_splits)

lemma consume_mutate_ok:
  "SetRequest_call r s = Inr s' \<Longrightarrow> consume s (MutateRequest r) = Inr (s', [])"
  using SetRequest_call_truthy[of r s s'] by simp

lemma consume_step_invoke:
  "consume_step (s, created) (InvokeRequest x) = Inr (s, created @ [(x, s)])"
  by (simp add: consume_step_def)

text \<open>
  With a target field that names a field of the State, the operation is invoked against
  that field and the State comes back with that field replaced by the result.
\<close>

lemma SetRequest_call_field:
  assumes "map_of attrs name = Some old" and "name \<noteq> []"
    and "call_operation (set_operation request) old = Inr v"
    and "set_field request = VStr name"
  shows "SetRequest_call request (VData cls attrs) = Inr (VData cls (AList.update name v attrs))"
proof -
  from assms(1) have "name \<in> fst ` set attrs"
    by (metis domI dom_map_of_conv_image_fst)
  with assms show ?thesis
    by (simp add: SetRequest_call_def state_getter_def state_setter_def)
qed

text \<open>
  On a MutateRequest that names its field, \<^verbatim>\<open>SetRequest.__call__\<close> returns the State
  that the specification's reference prescribes.
\<close>

lemma SetRequest_call_follows_spec:
  assumes "names_field r" and "spec_mutate r s = Some s'"
  shows "SetRequest_call r s = Inr s'"
proof -
  obtain oper f where r: "r = SetRequest oper f" by (cases r)
  with assms(1) obtain name where f: "f = VStr name" and name: "name \<noteq> []"
    by (cases f) auto
  from assms(2) r f obtain cls attrs where s: "s = VData cls attrs"
    by (cases s) auto
  from assms(2) r f s obtain current where cur: "map_of attrs name = Some current"
    by (auto split: option.splits)
  from assms(2) r f s cur obtain v where v: "op oper current (args oper) (kwargs oper) = Inr v"
    and s': "s' = VData cls (AList.update name v attrs)"
    by (auto split: sum.splits if_splits)
  from v r have "call_operation (set_operation r) current = Inr v"
    by (simp add: call_operation_def)
  from SetRequest_call_field[OF cur name this, of cls] r f s s' show ?thesis by simp
qed

lemma reduce_follows_reference:
  "list_all names_field (mutate_requests reqs)
   \<Longrightarrow> spec_apply_sequentially s (mutate_requests reqs) = Some s'
   \<Longrightarrow> \<exists>created'. coroutine_reduce consume_step (s, created) reqs = Inr (s', created')"
proof (induction reqs arbitrary: s created)
  case Nil
  then show ?case by simp
next
  case (Cons r reqs)
  show ?case
  proof (cases r)
    case (MutateRequest m)
    with Cons.prems obtain s1 where ref: "spec_mutate m s = Some s1"
      and rest: "spec_apply_sequentially s1 (mutate_requests reqs) = Some s'"
      by (auto split: option.splits)
    from Cons.prems MutateRequest have named: "names_field m"
      and named_rest: "list_all names_field (mutate_requests reqs)"
      by simp_all
    have s1: "SetRequest_call m s = Inr s1"
      by (rule SetRequest_call_follows_spec[OF named ref])
    from Cons.IH[OF named_rest rest, of created] obtain c' where
      "coroutine_reduce consume_step (s1, created) reqs = Inr (s', c')" by blast
    moreover have "consume_step (s, created) (MutateRequest m) = Inr (s1, created)"
      unfolding consume_step_def fst_conv consume_mutate_ok[OF s1] by simp
    ultimately show ?thesis using MutateRequest by simp
  next
    case (InvokeRequest x)
    with Cons.prems have rest: "spec_apply_sequentially s (mutate_requests reqs) = Some s'"
      and named_rest: "list_all names_field (mutate_requests reqs)"
      by simp_all
    then show ?thesis
      using Cons.IH[OF named_rest rest, of "created @ [(x, s)]"] InvokeRequest
      by (simp add: consume_step_invoke)
  qed
qed

text \<open>
  The consume loop is a left fold over the request stream. For a stream whose
  MutateRequests all name their field, in any interleaving with InvokeRequests: if
  applying the mutate operations one after the other, in enqueue order and starting from
  the initial State, yields a State by the specification's reference, then the loop run
  over the whole stream ends holding exactly that State.
\<close>

lemma mailbox_serializes_field_mutations:
  "list_all names_field (mutate_requests mailbox)
   \<Longrightarrow> spec_apply_sequentially data (mutate_requests mailbox) = Some final
   \<Longrightarrow> final_state (run data mailbox) = Inr final"
  using reduce_follows_reference[of mailbox data final "[]"]
  by (auto simp: run_def final_state_def)

lemma mailbox_serializes_sample:
  "list_all names_field (mutate_requests sample_mailbox)
   \<and> spec_apply_sequentially sample_state (mutate_requests sample_mailbox)
       = Some (VData ''Application'' [(''start'', VInt 8), (''data'', VDict [])])
   \<and> final_state (run sample_state sample_mailbox)
       = Inr (VData ''Application'' [(''start'', VInt 8), (''data'', VDict [])])"
proof -
  have named: "list_all names_field (mutate_requests sample_mailbox)"
    by (simp add: sample_mailbox_def)
  have ref: "spec_apply_sequentially sample_state (mutate_requests sample_mailbox)
       = Some (VData ''Application'' [(''start'', VInt 8), (''data'', VDict [])])"
    by (simp add: sample_state_def sample_mailbox_def op_return_def)
  from named ref mailbox_serializes_field_mutations[OF named ref] show ?thesis by simp
qed

text \<open>
  Claim C1 on a stream with a MutateRequest that gives no field. Applying the two
  mutate operations one after the other, in enqueue order and starting from the initial
  State, yields a State: the first replaces the whole State by the State its operation
  returns, the second adds 1 to the field \<^verbatim>\<open>start\<close>. The consume loop does not end
  holding that State: its fold stops at the first request, where the setter raises
  \<^verbatim>\<open>TypeError\<close>, although the same second request alone is applied as the reference
  prescribes.
\<close>

theorem mailbox_fold_fails_on_fieldless_mutation:
  "spec_apply_sequentially sample_state (mutate_requests fieldless_mailbox)
     = Some (VData ''Application'' [(''start'', VInt 8), (''data'', VDict [(VStr ''k'', VInt 1)])])
   \<and> final_state (run sample_state fieldless_mailbox) = Inl TypeError
   \<and> final_state (run sample_state (tl fieldless_mailbox))
       = Inr (VData ''Application'' [(''start'', VInt 8), (''data'', VDict [(VStr ''k'', VInt 1)])])"
  by (simp add: fieldless_mailbox_def sample_state_def run_def final_state_def
      consume_step_def SetRequest_call_def call_operation_def op_return_def
      state_getter_def state_setter_def)

lemma final_state_ignores_tasks:
  "final_state (coroutine_reduce consume_step (s, c) reqs)
   = final_state (coroutine_reduce consume_step (s, c') reqs)"
proof (induction reqs arbitrary: s c c')
  case Nil
  show ?case by (simp add: final_state_def)
next
  case (Cons r reqs)
  show ?case
  proof (cases "consume s r")
    case (Inl e)
    then show ?thesis by (simp add: consume_step_def final_state_def)
  next
    case (Inr p)
    obtain s1 new where p: "p = (s1, new)" by (cases p)
    have "consume_step (s, c) r = Inr (s1, c @ new)"
      and "consume_step (s, c') r = Inr (s1, c' @ new)"
      using Inr p by (simp_all add: consume_step_def)
    then show ?thesis using Cons.IH[of s1 "c @ new" "c' @ new"] by simp
  qed
qed

lemma invoke_anywhere:
  "final_state (coroutine_reduce consume_step (s, c) (before @ InvokeRequest x # rest))
   = final_state (coroutine_reduce consume_step (s, c) (before @ rest))"
proof (induction before arbitrary: s c)
  case Nil
  show ?case
    using final_state_ignores_tasks[of s "c @ [(x, s)]" rest c]
    by (simp add: consume_step_invoke)
next
  case (Cons r before)
  show ?case
  proof (cases "consume_step (s, c) r")
    case (Inl e)
    then show ?thesis by simp
  next
    case (Inr p)
    obtain s1 c1 where "p = (s1, c1)" by (cases p)
    with Inr Cons.IH[of s1 c1] show ?thesis by simp
  qed
qed

text \<open>
  Claim C5. Processing an InvokeRequest leaves the State of the mailbox actor
  unchanged: the consume step returns exactly the State it was given (and creates one
  detached task for the request), and an InvokeRequest at any position of the request
  stream makes no difference to the State the loop ends with.
\<close>

theorem invoke_request_keeps_state:
  "consume state (InvokeRequest request) = Inr (state, [(request, state)])
   \<and> final_state (run data (before @ InvokeRequest request # rest))
       = final_state (run data (before @ rest))"
  using invoke_anywhere[of data "[]" before request rest]
  by (simp add: run_def)

text \<open>
  Claim C4, the case without a target field. The operation is invoked against the
  whole State, but its result never replaces the State: the setter passes the absent
  field name on to \<^verbatim>\<open>dataclasses.replace\<close> as a keyword, which raises. Here the
  operation returns the State it should be replaced by, and the call ends in
  \<^verbatim>\<open>TypeError\<close>; no SetRequest without a field ever returns a State.
\<close>

theorem set_request_without_field_raises:
  "SetRequest_call (SetRequest (Operation (op_return sample_state) [] []) VNone) sample_state
     = Inl TypeError
   \<and> (\<exists>e. SetRequest_call (SetRequest any_operation VNone) state = Inl e)"
proof
  show "SetRequest_call (SetRequest (Operation (op_return sample_state) [] []) VNone) sample_state
     = Inl TypeError"
    by (simp add: SetRequest_call_def call_operation_def op_return_def state_setter_def
        sample_state_def)
  show "\<exists>e. SetRequest_call (SetRequest any_operation VNone) state = Inl e"
    by (cases state; cases "call_operation any_operation state")
       (simp_all add: SetRequest_call_def state_setter_def)
qed

lemma consume_step_failure:
  "consume state r = Inl e \<Longrightarrow> consume_step (state, tasks) r = Inl e"
  by (simp add: consume_step_def)

text \<open>
  Claim C6, as amended. If the operation wrapped in an InvokeRequest raises, the reply
  channel is left exactly as it was (a pending future stays pending; it is not
  fulfilled with the failure), and when there is a reply channel the exception
  surfaces in the detached task that ran the request.
\<close>

theorem failed_invoke_leaves_reply_untouched:
  assumes "task (ExecuteRequest_call request state) = Some (Inl e)"
  shows "reply (ExecuteRequest_call request state) = reply_to request
         \<and> (reply_to request \<noteq> None \<longrightarrow> raised (ExecuteRequest_call request state) = Some e)"
  using assms
  unfolding ExecuteRequest_call_def Let_def
  by (auto split: sum.splits option.splits if_splits)

theorem failed_invoke_leaves_reply_untouched_witness:
  "task (ExecuteRequest_call
           (ExecuteRequest (Operation (op_raise (OpError ''boom'')) [] []) VNone (Some Pending))
           sample_state) = Some (Inl (OpError ''boom''))
   \<and> reply (ExecuteRequest_call
           (ExecuteRequest (Operation (op_raise (OpError ''boom'')) [] []) VNone (Some Pending))
           sample_state) = Some Pending
   \<and> raised (ExecuteRequest_call
           (ExecuteRequest (Operation (op_raise (OpError ''boom'')) [] []) VNone (Some Pending))
           sample_state) = Some (OpError ''boom'')"
proof -
  have h: "task (ExecuteRequest_call
           (ExecuteRequest (Operation (op_raise (OpError ''boom'')) [] []) VNone (Some Pending))
           sample_state) = Some (Inl (OpError ''boom''))"
    by (simp add: ExecuteRequest_call_def call_operation_def op_raise_def)
  show ?thesis
    using h failed_invoke_leaves_reply_untouched[OF h] by simp
qed

text \<open>
  Claim C6 as stated fails: the operation raises, the request carries a pending reply
  future, and afterwards the future is still pending rather than holding the failure.
\<close>

theorem reply_fulfilled_with_failure_counterexample:
  "call_operation (Operation (op_raise (OpError ''boom'')) [] []) sample_state
     = Inl (OpError ''boom'')
   \<and> reply (ExecuteRequest_call
           (ExecuteRequest (Operation (op_raise (OpError ''boom'')) [] []) VNone (Some Pending))
           sample_state) \<noteq> Some (Failed (OpError ''boom''))
   \<and> reply (ExecuteRequest_call
           (ExecuteRequest (Operation (op_raise (OpError ''boom'')) [] []) VNone (Some Pending))
           sample_state) = Some Pending"
  by (simp add: ExecuteRequest_call_def call_operation_def op_raise_def)

text \<open>
  Claim C7, as amended. The assertion in \<^verbatim>\<open>consume\<close> guards the State that the
  request returns, not the value the operation produced. A MutateRequest step that
  succeeds returns a truthy, non-null State and creates no task; a step that fails with
  anything but a cancellation makes the fold fail with that same error; and a null value
  produced for a named field of the State is installed in that field, the step
  succeeding.
\<close>

theorem consume_guards_state_not_value:
  "(consume state (MutateRequest request) = Inr (state', created)
      \<longrightarrow> truthy state' \<and> state' \<noteq> VNone \<and> created = [])
   \<and> (consume state (MutateRequest request) = Inl e \<and> e \<noteq> CancelledError
      \<longrightarrow> coroutine_reduce consume_step (state, tasks) (MutateRequest request # rest) = Inl e)
   \<and> (state = VData cls attrs \<and> map_of attrs name = Some old \<and> name \<noteq> []
        \<and> set_field request = VStr name
        \<and> call_operation (set_operation request) old = Inr VNone
      \<longrightarrow> consume state (MutateRequest request)
            = Inr (VData cls (AList.update name VNone attrs), []))"
proof (intro conjI impI)
  assume a: "consume state (MutateRequest request) = Inr (state', created)"
  then show "truthy state'" by (auto split: sum.splits if_splits)
  then show "state' \<noteq> VNone" by auto
  from a show "created = []" by (auto split: sum.splits if_splits)
next
  assume "consume state (MutateRequest request) = Inl e \<and> e \<noteq> CancelledError"
  then show "coroutine_reduce consume_step (state, tasks) (MutateRequest request # rest) = Inl e"
    using consume_step_failure[of state "MutateRequest request" e tasks] by simp
next
  assume "state = VData cls attrs \<and> map_of attrs name = Some old \<and> name \<noteq> []
        \<and> set_field request = VStr name
        \<and> call_operation (set_operation request) old = Inr VNone"
  then show "consume state (MutateRequest request)
            = Inr (VData cls (AList.update name VNone attrs), [])"
    using SetRequest_call_field[of attrs name old request VNone cls] by simp
qed

theorem consume_guards_state_not_value_witness:
  "consume sample_state
     (MutateRequest (SetRequest (Operation (op_return VNone) [] []) (VStr ''data'')))
     = Inr (VData ''Application'' [(''start'', VInt 7), (''data'', VNone)], [])
   \<and> truthy (VData ''Application'' [(''start'', VInt 7), (''data'', VNone)])
   \<and> consume sample_state
        (MutateRequest (SetRequest (Operation (op_raise (OpError ''boom'')) [] []) (VStr ''data'')))
      = Inl (OpError ''boom'')
   \<and> OpError ''boom'' \<noteq> CancelledError
   \<and> coroutine_reduce consume_step (sample_state, [])
        [MutateRequest (SetRequest (Operation (op_raise (OpError ''boom'')) [] []) (VStr ''data'')),
         MutateRequest (SetRequest (Operation (op_return (VInt 8)) [] []) (VStr ''start''))]
      = Inl (OpError ''boom'')"
proof -
  have ok: "consume sample_state
     (MutateRequest (SetRequest (Operation (op_return VNone) [] []) (VStr ''data'')))
     = Inr (VData ''Application'' [(''start'', VInt 7), (''data'', VNone)], [])"
    using consume_guards_state_not_value
      [of sample_state "SetRequest (Operation (op_return VNone) [] []) (VStr ''data'')"
          _ _ _ _ _
          "''Application''" "[(''start'', VInt 7), (''data'', VDict [(VStr ''k'', VInt 1)])]"
          "''data''" "VDict [(VStr ''k'', VInt 1)]"]
    by (simp add: sample_state_def call_operation_def op_return_def)
  have bad: "consume sample_state
        (MutateRequest (SetRequest (Operation (op_raise (OpError ''boom'')) [] []) (VStr ''data'')))
      = Inl (OpError ''boom'')"
    by (simp add: sample_state_def SetRequest_call_def call_operation_def op_raise_def
        state_getter_def)
  have t: "truthy (VData ''Application'' [(''start'', VInt 7), (''data'', VNone)])"
    using ok consume_guards_state_not_value
      [of sample_state "SetRequest (Operation (op_return VNone) [] []) (VStr ''data'')"
          "VData ''Application'' [(''start'', VInt 7), (''data'', VNone)]" "[]"]
    by blast
  have f: "coroutine_reduce consume_step (sample_state, [])
        [MutateRequest (SetRequest (Operation (op_raise (OpError ''boom'')) [] []) (VStr ''data'')),
         MutateRequest (SetRequest (Operation (op_return (VInt 8)) [] []) (VStr ''start''))]
      = Inl (OpError ''boom'')"
    using bad consume_guards_state_not_value
      [of sample_state "SetRequest (Operation (op_raise (OpError ''boom'')) [] []) (VStr ''data'')"
          _ _ "OpError ''boom''" "[]"
          "[MutateRequest (SetRequest (Operation (op_return (VInt 8)) [] []) (VStr ''start''))]"]
    by simp
  from ok t bad f show ?thesis by simp
qed

text \<open>
  Claim C7 as stated fails: the operation produces a null value for the field
  \<^verbatim>\<open>data\<close>, and the consume step succeeds with that null installed in the field.
\<close>

theorem null_value_fails_loudly_counterexample:
  "call_operation (Operation (op_return VNone) [] []) (VDict [(VStr ''k'', VInt 1)]) = Inr VNone
   \<and> consume sample_state
        (MutateRequest (SetRequest (Operation (op_return VNone) [] []) (VStr ''data'')))
      = Inr (VData ''Application'' [(''start'', VInt 7), (''data'', VNone)], [])"
  by (simp add: sample_state_def SetRequest_call_def call_operation_def op_return_def
      state_getter_def state_setter_def)

text \<open>
  Claim C10, as amended. A mutate operation that returns a falsy value for a named
  field of the State has that value installed in the field: the assertion in
  \<^verbatim>\<open>consume\<close> tests the State returned by the request, which is a dataclass instance,
  so it passes and the fold goes on from the new State.
\<close>

theorem falsy_value_installed_in_field:
  assumes "map_of attrs name = Some old" and "name \<noteq> []"
    and "set_field request = VStr name"
    and "call_operation (set_operation request) old = Inr v"
    and "\<not> truthy v"
  shows "consume (VData cls attrs) (MutateRequest request)
           = Inr (VData cls (AList.update name v attrs), [])
         \<and> coroutine_reduce consume_step (VData cls attrs, tasks) (MutateRequest request # rest)
           = coroutine_reduce consume_step (VData cls (AList.update name v attrs), tasks) rest"
proof -
  have c: "consume (VData cls attrs) (MutateRequest request)
           = Inr (VData cls (AList.update name v attrs), [])"
    using SetRequest_call_field[OF assms(1,2,4,3), of cls] by simp
  then have "consume_step (VData cls attrs, tasks) (MutateRequest request)
           = Inr (VData cls (AList.update name v attrs), tasks)"
    unfolding consume_step_def fst_conv c by simp
  with c show ?thesis by simp
qed

theorem falsy_value_installed_in_field_witness:
  "map_of [(''start'', VInt 7), (''data'', VDict [(VStr ''k'', VInt 1)])] ''data''
     = Some (VDict [(VStr ''k'', VInt 1)])
   \<and> ''data'' \<noteq> []
   \<and> set_field (SetRequest (Operation (op_return (VDict [])) [] []) (VStr ''data'')) = VStr ''data''
   \<and> call_operation (set_operation (SetRequest (Operation (op_return (VDict [])) [] []) (VStr ''data'')))
        (VDict [(VStr ''k'', VInt 1)]) = Inr (VDict [])
   \<and> \<not> truthy (VDict [])
   \<and> consume (VData ''Application'' [(''start'', VInt 7), (''data'', VDict [(VStr ''k'', VInt 1)])])
        (MutateRequest (SetRequest (Operation (op_return (VDict [])) [] []) (VStr ''data'')))
      = Inr (VData ''Application'' [(''start'', VInt 7), (''data'', VDict [])], [])"
proof -
  have h1: "map_of [(''start'', VInt 7), (''data'', VDict [(VStr ''k'', VInt 1)])] ''data''
     = Some (VDict [(VStr ''k'', VInt 1)])" by simp
  have h2: "''data'' \<noteq> []" by simp
  have h3: "set_field (SetRequest (Operation (op_return (VDict [])) [] []) (VStr ''data'')) = VStr ''data''"
    by simp
  have h4: "call_operation (set_operation (SetRequest (Operation (op_return (VDict [])) [] []) (VStr ''data'')))
        (VDict [(VStr ''k'', VInt 1)]) = Inr (VDict [])"
    by (simp add: call_operation_def op_return_def)
  have h5: "\<not> truthy (VDict [])" by simp
  show ?thesis
    using h1 h2 h3 h4 h5
      falsy_value_installed_in_field[OF h1 h2 h3 h4 h5, of "''Application''" "[]" "[]"]
    by simp
qed

text \<open>
  Claim C10 as stated fails: the operation returns the falsy value 0 for the field
  \<^verbatim>\<open>start\<close>, and the consume step succeeds with 0 installed in that field.
\<close>

theorem falsy_value_rejected_counterexample:
  "\<not> truthy (VInt 0)
   \<and> call_operation (Operation (op_return (VInt 0)) [] []) (VInt 7) = Inr (VInt 0)
   \<and> consume sample_state
        (MutateRequest (SetRequest (Operation (op_return (VInt 0)) [] []) (VStr ''start'')))
      = Inr (VData ''Application'' [(''start'', VInt 0), (''data'', VDict [(VStr ''k'', VInt 1)])], [])"
  by (simp add: sample_state_def SetRequest_call_def call_operation_def op_return_def
      state_getter_def state_setter_def)


section \<open>The event registry\<close>

lemma values_after_update: "snd ` set (AList.update k v al) \<subseteq> insert v (snd ` set al)"
  by (induction al) auto

text \<open>
  Claim C3, as amended. Whenever the backend has an event type left,
  \<^verbatim>\<open>event_register\<close> allocates a fresh tag and binds the key to it whether or not the
  key is already present: a present key gets the new tag in place of its old one, every
  other key keeps its tag, and the allocator advances. Along a registry chain whose
  tags all lie below the allocator's next type, the new tag differs from every tag
  handed out before, and the chain keeps that property.
\<close>

theorem event_register_always_allocates:
  assumes "next_type < limit"
  shows "event_register limit next_type events event
           = Inr (fd_set events event next_type, next_type + 1)
         \<and> map_of (fd_set events event next_type) event = Some next_type
         \<and> (\<forall>k. k \<noteq> event \<longrightarrow> map_of (fd_set events event next_type) k = map_of events k)
         \<and> ((\<forall>tag \<in> snd ` set events. tag < next_type)
              \<longrightarrow> next_type \<notin> snd ` set events
                \<and> (\<forall>tag \<in> snd ` set (fd_set events event next_type). tag < next_type + 1))"
proof (intro conjI allI impI)
  show "event_register limit next_type events event
           = Inr (fd_set events event next_type, next_type + 1)"
    using assms by (simp add: event_register_def custom_type_def)
  show "map_of (fd_set events event next_type) event = Some next_type"
    by (simp add: fd_set_def update_conv')
  show "map_of (fd_set events event next_type) k = map_of events k" if "k \<noteq> event" for k
    using that by (simp add: fd_set_def update_conv')
  assume below: "\<forall>tag \<in> snd ` set events. tag < next_type"
  then show "next_type \<notin> snd ` set events" by auto
  show "\<forall>tag \<in> snd ` set (fd_set events event next_type). tag < next_type + 1"
  proof
    fix tag assume "tag \<in> snd ` set (fd_set events event next_type)"
    then have "tag = next_type \<or> tag \<in> snd ` set events"
      using values_after_update[of event next_type events] by (auto simp: fd_set_def)
    with below show "tag < next_type + 1" by auto
  qed
qed

theorem event_register_always_allocates_witness:
  "(32771::int) < 65535
   \<and> event_register 65535 32771 [(''INIT'', 32769), (''EXIT'', 32770)] ''INIT''
       = Inr ([(''INIT'', 32771), (''EXIT'', 32770)], 32772)
   \<and> map_of [(''INIT'', 32771), (''EXIT'', 32770::int)] ''EXIT''
       = map_of [(''INIT'', 32769), (''EXIT'', 32770)] ''EXIT''
   \<and> (32771::int) \<notin> snd ` set [(''INIT'', 32769), (''EXIT'', 32770)]"
proof -
  have h: "(32771::int) < 65535" by simp
  have b: "\<forall>tag \<in> snd ` set [(''INIT'', 32769::int), (''EXIT'', 32770)]. tag < 32771" by simp
  show ?thesis
    using h b event_register_always_allocates
      [OF h, of "[(''INIT'', 32769), (''EXIT'', 32770)]" "''INIT''"]
    by (simp add: fd_set_def)
qed

text \<open>
  Claim C3 as stated fails: the key \<^verbatim>\<open>INIT\<close> is present with tag 32769, and after
  registering it again in the same registry its tag is 32771.
\<close>

theorem reregistering_keeps_tag_counterexample:
  "map_of [(''INIT'', 32769::int), (''EXIT'', 32770)] ''INIT'' = Some 32769
   \<and> event_register 65535 32771 [(''INIT'', 32769), (''EXIT'', 32770)] ''INIT''
       = Inr ([(''INIT'', 32771), (''EXIT'', 32770)], 32772)
   \<and> map_of [(''INIT'', 32771::int), (''EXIT'', 32770)] ''INIT'' \<noteq> Some 32769"
  by (simp add: event_register_def custom_type_def fd_set_def)

lemma listeners_for_after_add:
  "listeners_for
     (fd_set listeners event_type
        (fd_set (fd_get listeners event_type []) key
           (fd_get (fd_get listeners event_type []) key [] @ [entry])))
     event_type key
   = listeners_for listeners event_type key @ [entry]"
  unfolding listeners_for_def fd_get_def fd_set_def
  by (auto simp: update_conv' split: option.splits)

lemma listeners_for_elsewhere_after_add:
  "(t, k) \<noteq> (event_type, key)
   \<Longrightarrow> listeners_for
         (fd_set listeners event_type
            (fd_set (fd_get listeners event_type []) key
               (fd_get (fd_get listeners event_type []) key [] @ [entry])))
         t k
       = listeners_for listeners t k"
  unfolding listeners_for_def fd_get_def fd_set_def
  by (auto simp: update_conv' split: option.splits)

text \<open>
  Claim C8. \<^verbatim>\<open>listener_add\<close> appends the callback at the end of the listener sequence
  for the event type and the target key (the element's id for an element, the wildcard
  key for no target): the listeners registered before stay in front, in their order,
  and the sequence of every other pair of event type and key is unchanged. For a target
  that is neither an element nor absent it raises instead of registering.
\<close>

theorem listener_add_appends_in_order:
  "(\<exists>listeners'.
      listener_add listeners (AnElement element) event_type listener = Inr listeners'
      \<and> listeners_for listeners' event_type (ElementId (elem_id element))
          = listeners_for listeners event_type (ElementId (elem_id element))
              @ [Listener event_type listener]
      \<and> (\<forall>t k. (t, k) \<noteq> (event_type, ElementId (elem_id element))
            \<longrightarrow> listeners_for listeners' t k = listeners_for listeners t k))
   \<and> (\<exists>listeners'.
      listener_add listeners NoTarget event_type listener = Inr listeners'
      \<and> listeners_for listeners' event_type Star
          = listeners_for listeners event_type Star @ [Listener event_type listener]
      \<and> (\<forall>t k. (t, k) \<noteq> (event_type, Star)
            \<longrightarrow> listeners_for listeners' t k = listeners_for listeners t k))
   \<and> listener_add listeners (Unsupported v) event_type listener
       = Inl (Exception ''Not supported'')"
  by (simp add: listener_add_def listeners_for_after_add listeners_for_elsewhere_after_add)

theorem listener_add_appends_in_order_witness:
  "listener_add (application_listeners sample_application)
      (AnElement (Element (Some (Rect 20 20 10 10)) 2)) 1025 ''again''
     = Inr [(1025, [(Star, [Listener 1025 ''on_any'']),
                    (ElementId 1, [Listener 1025 ''on_first'']),
                    (ElementId 2, [Listener 1025 ''on_second'', Listener 1025 ''again'']),
                    (ElementId 3, [Listener 1025 ''on_third''])]),
            (32867, [(ElementId 2, [Listener 32867 ''fade''])])]
   \<and> (\<exists>listeners'.
        listener_add (application_listeners sample_application)
          (AnElement (Element (Some (Rect 20 20 10 10)) 2)) 1025 ''again'' = Inr listeners'
        \<and> listeners_for listeners' 1025 (ElementId 2)
            = [Listener 1025 ''on_second'', Listener 1025 ''again'']
        \<and> listeners_for listeners' 32867 (ElementId 2) = [Listener 32867 ''fade''])"
proof -
  have e: "listener_add (application_listeners sample_application)
      (AnElement (Element (Some (Rect 20 20 10 10)) 2)) 1025 ''again''
     = Inr [(1025, [(Star, [Listener 1025 ''on_any'']),
                    (ElementId 1, [Listener 1025 ''on_first'']),
                    (ElementId 2, [Listener 1025 ''on_second'', Listener 1025 ''again'']),
                    (ElementId 3, [Listener 1025 ''on_third''])]),
            (32867, [(ElementId 2, [Listener 32867 ''fade''])])]"
    by (simp add: listener_add_def sample_application_def fd_get_def fd_set_def)
  have before: "listeners_for (application_listeners sample_application) 1025 (ElementId 2)
      = [Listener 1025 ''on_second'']"
    "listeners_for (application_listeners sample_application) 32867 (ElementId 2)
      = [Listener 32867 ''fade'']"
    by (simp_all add: listeners_for_def sample_application_def fd_get_def)
  have distinct_pair: "(32867::int, ElementId 2) \<noteq> (1025, ElementId (elem_id (Element (Some (Rect 20 20 10 10)) 2)))"
    by simp
  from listener_add_appends_in_order
    [of "application_listeners sample_application" "Element (Some (Rect 20 20 10 10)) 2" 1025
        "''again''"]
  obtain listeners' where
    l: "listener_add (application_listeners sample_application)
          (AnElement (Element (Some (Rect 20 20 10 10)) 2)) 1025 ''again'' = Inr listeners'"
    and a: "listeners_for listeners' 1025 (ElementId (elem_id (Element (Some (Rect 20 20 10 10)) 2)))
          = listeners_for (application_listeners sample_application) 1025
              (ElementId (elem_id (Element (Some (Rect 20 20 10 10)) 2)))
              @ [Listener 1025 ''again'']"
    and o: "\<forall>t k. (t, k) \<noteq> (1025, ElementId (elem_id (Element (Some (Rect 20 20 10 10)) 2)))
            \<longrightarrow> listeners_for listeners' t k
                = listeners_for (application_listeners sample_application) t k"
    by blast
  from o distinct_pair have "listeners_for listeners' 32867 (ElementId 2)
      = listeners_for (application_listeners sample_application) 32867 (ElementId 2)"
    by blast
  with l a before e show ?thesis by simp
qed

lemma update_at_unique_key:
  "k \<notin> fst ` set xs \<Longrightarrow> AList.update k v (xs @ (k, w) # ys) = xs @ (k, v) # ys"
  by (induction xs) auto

lemma delete_listeners_step:
  assumes "ev \<notin> fst ` set done"
  shows "delete_listeners element (done @ (ev, ts) # rest) (ev, ts)
         = done @ (ev, AList.delete (ElementId (elem_id element)) ts) # rest"
proof (cases "ElementId (elem_id element) \<in> fst ` set ts")
  case True
  then show ?thesis
    using update_at_unique_key[OF assms]
    by (simp add: delete_listeners_def fd_delete_def fd_set_def)
next
  case False
  then show ?thesis
    by (simp add: delete_listeners_def fd_delete_def)
qed

lemma listeners_remove_fold:
  assumes "distinct (map fst (done @ todo))"
  shows "foldl (delete_listeners element)
           (map (\<lambda>(ev, ts). (ev, AList.delete (ElementId (elem_id element)) ts)) done @ todo) todo
         = map (\<lambda>(ev, ts). (ev, AList.delete (ElementId (elem_id element)) ts)) (done @ todo)"
  using assms
proof (induction todo arbitrary: "done")
  case Nil
  then show ?case by simp
next
  case (Cons p todo)
  obtain ev ts where p: "p = (ev, ts)" by (cases p)
  let ?g = "\<lambda>(ev, ts). (ev, AList.delete (ElementId (elem_id element)) ts)"
  from Cons.prems p have fresh: "ev \<notin> fst ` set (map ?g done)"
    by (auto simp: image_iff)
  have step: "delete_listeners element (map ?g done @ (ev, ts) # todo) (ev, ts)
        = map ?g (done @ [(ev, ts)]) @ todo"
    using delete_listeners_step[OF fresh, of element ts todo] by simp
  from Cons.prems p have "distinct (map fst ((done @ [(ev, ts)]) @ todo))" by simp
  from Cons.IH[OF this] step p show ?case by simp
qed

lemma listeners_remove_absent:
  assumes "\<forall>(ev, ts) \<in> set todo. ElementId (elem_id element) \<notin> fst ` set ts"
  shows "foldl (delete_listeners element) current todo = current"
  using assms
  by (induction todo arbitrary: current)
     (auto simp: delete_listeners_def fd_delete_def)

text \<open>
  Claim C9. Removing the listeners of an element that is registered under no event
  type returns the registry it was given. In general (the event types of a registry
  being distinct keys) \<^verbatim>\<open>listeners_remove\<close> deletes the element's id from the target map
  of every event type and changes nothing else: afterwards no listener is registered
  for that id, and every other key has the listeners it had.
\<close>

theorem listeners_remove_removes_element:
  "((\<forall>(ev, ts) \<in> set listeners. ElementId (elem_id element) \<notin> fst ` set ts)
      \<longrightarrow> listeners_remove listeners element = listeners)
   \<and> (distinct (map fst listeners)
      \<longrightarrow> listeners_remove listeners element
            = map (\<lambda>(ev, ts). (ev, AList.delete (ElementId (elem_id element)) ts)) listeners
          \<and> (\<forall>t k. listeners_for (listeners_remove listeners element) t k
                 = (if k = ElementId (elem_id element) then []
                    else listeners_for listeners t k)))"
proof (intro conjI impI)
  assume "\<forall>(ev, ts) \<in> set listeners. ElementId (elem_id element) \<notin> fst ` set ts"
  then show "listeners_remove listeners element = listeners"
    using listeners_remove_absent[of listeners element listeners]
    by (simp add: listeners_remove_def)
next
  assume d: "distinct (map fst listeners)"
  then show eq: "listeners_remove listeners element
            = map (\<lambda>(ev, ts). (ev, AList.delete (ElementId (elem_id element)) ts)) listeners"
    using listeners_remove_fold[of "[]" listeners element]
    by (simp add: listeners_remove_def)
  have look: "map_of (map (\<lambda>(ev, ts). (ev, AList.delete (ElementId (elem_id element)) ts)) listeners) t
      = map_option (AList.delete (ElementId (elem_id element))) (map_of listeners t)" for t
    by (induction listeners) auto
  show "\<forall>t k. listeners_for (listeners_remove listeners element) t k
                 = (if k = ElementId (elem_id element) then []
                    else listeners_for listeners t k)"
    unfolding eq listeners_for_def fd_get_def look
    by (auto simp: delete_conv' split: option.splits)
qed

theorem listeners_remove_removes_element_witness:
  "listeners_remove (application_listeners sample_application) (Element None 9)
       = application_listeners sample_application
   \<and> distinct (map fst (application_listeners sample_application))
   \<and> listeners_remove (application_listeners sample_application)
         (Element (Some (Rect 20 20 10 10)) 2)
       = [(1025, [(Star, [Listener 1025 ''on_any'']),
                  (ElementId 1, [Listener 1025 ''on_first'']),
                  (ElementId 3, [Listener 1025 ''on_third''])]),
          (32867, [])]"
proof -
  have absent: "\<forall>(ev, ts) \<in> set (application_listeners sample_application).
       ElementId (elem_id (Element None 9)) \<notin> fst ` set ts"
    by (simp add: sample_application_def)
  have keys: "distinct (map fst (application_listeners sample_application))"
    by (simp add: sample_application_def)
  have same: "listeners_remove (application_listeners sample_application) (Element None 9)
       = application_listeners sample_application"
    using absent listeners_remove_removes_element
      [of "application_listeners sample_application" "Element None 9"]
    by blast
  have "listeners_remove (application_listeners sample_application)
         (Element (Some (Rect 20 20 10 10)) 2)
       = map (\<lambda>(ev, ts). (ev, AList.delete (ElementId (elem_id (Element (Some (Rect 20 20 10 10)) 2))) ts))
           (application_listeners sample_application)"
    using keys listeners_remove_removes_element
      [of "application_listeners sample_application" "Element (Some (Rect 20 20 10 10)) 2"]
    by blast
  then have gone: "listeners_remove (application_listeners sample_application)
         (Element (Some (Rect 20 20 10 10)) 2)
       = [(1025, [(Star, [Listener 1025 ''on_any'']),
                  (ElementId 1, [Listener 1025 ''on_first'']),
                  (ElementId 3, [Listener 1025 ''on_third''])]),
          (32867, [])]"
    by (simp add: sample_application_def)
  from same keys gone show ?thesis by blast
qed


section \<open>The dispatcher\<close>

text \<open>
  Claim C2 on three elements of which only the first contains the pointer. The dispatch
  for the absent target goes through the listeners of every key of the event type, so
  the listeners of the second and third element fire although the pointer misses them,
  and the listener of the first element fires twice: once from that dispatch and once
  from the dispatch for the hit element.
\<close>

theorem dispatch_mouse_fires_elements_not_hit:
  "check_is_collide (Element (Some (Rect 0 0 10 10)) 1) (Event 1025 (5, 5)) = Inr True
   \<and> check_is_collide (Element (Some (Rect 20 20 10 10)) 2) (Event 1025 (5, 5)) = Inr False
   \<and> check_is_collide (Element (Some (Rect 40 40 10 10)) 3) (Event 1025 (5, 5)) = Inr False
   \<and> dispatch_mouse sample_application (Event 1025 (5, 5))
       = Inr [(''on_any'', WholeApplication),
              (''on_first'', ElementSnapshot (Element (Some (Rect 0 0 10 10)) 1)),
              (''on_second'', ElementSnapshot (Element (Some (Rect 20 20 10 10)) 2)),
              (''on_third'', ElementSnapshot (Element (Some (Rect 40 40 10 10)) 3)),
              (''on_first'', ElementSnapshot (Element (Some (Rect 0 0 10 10)) 1))]"
  by (simp add: dispatch_mouse_def dispatch_to_target_def check_is_collide_def
      elements_at_def fd_get_def sample_application_def)

end
